theory Spec2Isabelle
  imports Main "HOL-Library.Sublist"
begin

section \<open>The task-list component \<open>TodoApp\<close> (src/components/Todo.jsx)\<close>

text \<open>
  The component keeps four pieces of React state (\<open>todos\<close>, \<open>loading\<close>, \<open>searchQuery\<close>,
  \<open>formData\<close>) and three asynchronous operations (\<open>fetchTodos\<close>, \<open>handleAddTodo\<close>,
  \<open>handleDelete\<close>). Each asynchronous operation is embedded as the part that runs when it is
  called (up to its \<open>await\<close>) and the part that runs when the awaited request settles. The
  values that the second part reads from its closure are stored with the request in flight.
\<close>

subsection \<open>JavaScript values and strings\<close>

text \<open>
  A JavaScript string is a sequence of UTF-16 code units. A code unit is a natural number
  (those of the language are below 65536). \<open>units\<close> gives the code units of a literal
  written in this file, whose characters are all in Basic Latin.
\<close>

type_synonym jsstring = "nat list"

definition units :: "string \<Rightarrow> jsstring" where
  "units s = map of_char s"

text \<open>
  The fields of a task arrive as JSON, so each holds any JavaScript value. Equality of
  \<open>jsval\<close> is JavaScript's \<open>===\<close> on these values (numbers are the integer-valued ones).
\<close>

datatype jsval = JUndefined | JNull | JBool bool | JNumber int | JString jsstring

text \<open>\<open>createdAt\<close> is what the server sent, or the \<open>Date\<close> object made by the client
  (milliseconds since the epoch).\<close>

datatype stamp = FromServer jsval | DateObj nat

datatype error = TypeError

text \<open>\<open>String.prototype.includes\<close> (here \<open>str_includes\<close>): the argument occurs as a
  contiguous run of code units.\<close>

definition str_includes :: "jsstring \<Rightarrow> jsstring \<Rightarrow> bool" where
  "str_includes s q = sublist q s"

text \<open>
  White space removed by \<open>String.prototype.trim\<close>: tab, line feed, vertical tab, form
  feed, carriage return, space, no-break space, U+1680, U+2000 to U+200A, the line and
  paragraph separators U+2028 and U+2029, U+202F, U+205F, U+3000 and U+FEFF.
\<close>

definition isWhitespace :: "nat \<Rightarrow> bool" where
  "isWhitespace u =
     (u \<in> {9, 10, 11, 12, 13, 32, 160, 5760, 8232, 8233, 8239, 8287, 12288, 65279}
      \<or> (8192 \<le> u \<and> u \<le> 8202))"

definition trim :: "jsstring \<Rightarrow> jsstring" where
  "trim s = rev (dropWhile isWhitespace (rev (dropWhile isWhitespace s)))"

text \<open>\<open>Number.prototype.toString\<close> on a clock reading (a natural number): decimal digits,
  the digit \<open>d\<close> being the code unit 48 + \<open>d\<close>.\<close>

definition digitChar :: "nat \<Rightarrow> nat" where
  "digitChar d = 48 + d"

function toString :: "nat \<Rightarrow> jsstring" where
  "toString n = (if n < 10 then [digitChar n] else toString (n div 10) @ [digitChar (n mod 10)])"
  by pat_completeness auto
termination
  by (relation "measure (\<lambda>n. n)") auto

declare toString.simps [simp del]

subsection \<open>\<open>String.prototype.toLowerCase\<close>\<close>

text \<open>
  \<open>toLowerCase\<close> is a function of the language, fixed by the Unicode Character Database:
  each code point is replaced by its lower-case mapping, which may be several code points
  (U+0130 becomes U+0069 U+0307), and the capital sigma U+03A3 becomes the final sigma
  U+03C2 where a cased letter comes before it and none comes after it, case-ignorable
  characters being skipped on both sides. The filtered view below takes the function as a
  parameter, so that what is proved of the view in general holds of the function whatever
  the database says.

  The function \<open>toLowerCase\<close> defined here is that function on the strings all of whose
  code units are below 1024 (U+0000 to U+03FF, Basic Latin to Greek and Coptic). The three
  tables are the database's lower-case mappings from U+0100 to U+03FF and its properties
  Cased and Case_Ignorable below U+0400. Strings with other code units are outside it.
\<close>

definition lower_table :: "(nat \<times> nat list) list" where
  "lower_table =
    [(256, [257]), (258, [259]), (260, [261]), (262, [263]), (264, [265]), (266, [267]),
     (268, [269]), (270, [271]), (272, [273]), (274, [275]), (276, [277]), (278, [279]),
     (280, [281]), (282, [283]), (284, [285]), (286, [287]), (288, [289]), (290, [291]),
     (292, [293]), (294, [295]), (296, [297]), (298, [299]), (300, [301]), (302, [303]),
     (304, [105, 775]), (306, [307]), (308, [309]), (310, [311]), (313, [314]),
     (315, [316]), (317, [318]), (319, [320]), (321, [322]), (323, [324]), (325, [326]),
     (327, [328]), (330, [331]), (332, [333]), (334, [335]), (336, [337]), (338, [339]),
     (340, [341]), (342, [343]), (344, [345]), (346, [347]), (348, [349]), (350, [351]),
     (352, [353]), (354, [355]), (356, [357]), (358, [359]), (360, [361]), (362, [363]),
     (364, [365]), (366, [367]), (368, [369]), (370, [371]), (372, [373]), (374, [375]),
     (376, [255]), (377, [378]), (379, [380]), (381, [382]), (385, [595]), (386, [387]),
     (388, [389]), (390, [596]), (391, [392]), (393, [598]), (394, [599]), (395, [396]),
     (398, [477]), (399, [601]), (400, [603]), (401, [402]), (403, [608]), (404, [611]),
     (406, [617]), (407, [616]), (408, [409]), (412, [623]), (413, [626]), (415, [629]),
     (416, [417]), (418, [419]), (420, [421]), (422, [640]), (423, [424]), (425, [643]),
     (428, [429]), (430, [648]), (431, [432]), (433, [650]), (434, [651]), (435, [436]),
     (437, [438]), (439, [658]), (440, [441]), (444, [445]), (452, [454]), (453, [454]),
     (455, [457]), (456, [457]), (458, [460]), (459, [460]), (461, [462]), (463, [464]),
     (465, [466]), (467, [468]), (469, [470]), (471, [472]), (473, [474]), (475, [476]),
     (478, [479]), (480, [481]), (482, [483]), (484, [485]), (486, [487]), (488, [489]),
     (490, [491]), (492, [493]), (494, [495]), (497, [499]), (498, [499]), (500, [501]),
     (502, [405]), (503, [447]), (504, [505]), (506, [507]), (508, [509]), (510, [511]),
     (512, [513]), (514, [515]), (516, [517]), (518, [519]), (520, [521]), (522, [523]),
     (524, [525]), (526, [527]), (528, [529]), (530, [531]), (532, [533]), (534, [535]),
     (536, [537]), (538, [539]), (540, [541]), (542, [543]), (544, [414]), (546, [547]),
     (548, [549]), (550, [551]), (552, [553]), (554, [555]), (556, [557]), (558, [559]),
     (560, [561]), (562, [563]), (570, [11365]), (571, [572]), (573, [410]),
     (574, [11366]), (577, [578]), (579, [384]), (580, [649]), (581, [652]), (582, [583]),
     (584, [585]), (586, [587]), (588, [589]), (590, [591]), (880, [881]), (882, [883]),
     (886, [887]), (895, [1011]), (902, [940]), (904, [941]), (905, [942]), (906, [943]),
     (908, [972]), (910, [973]), (911, [974]), (913, [945]), (914, [946]), (915, [947]),
     (916, [948]), (917, [949]), (918, [950]), (919, [951]), (920, [952]), (921, [953]),
     (922, [954]), (923, [955]), (924, [956]), (925, [957]), (926, [958]), (927, [959]),
     (928, [960]), (929, [961]), (931, [963]), (932, [964]), (933, [965]), (934, [966]),
     (935, [967]), (936, [968]), (937, [969]), (938, [970]), (939, [971]), (975, [983]),
     (984, [985]), (986, [987]), (988, [989]), (990, [991]), (992, [993]), (994, [995]),
     (996, [997]), (998, [999]), (1000, [1001]), (1002, [1003]), (1004, [1005]),
     (1006, [1007]), (1012, [952]), (1015, [1016]), (1017, [1010]), (1018, [1019]),
     (1021, [891]), (1022, [892]), (1023, [893])]"

definition cased_ranges :: "(nat \<times> nat) list" where
  "cased_ranges =
    [(65, 90), (97, 122), (170, 170), (181, 181), (186, 186), (192, 214), (216, 246),
     (248, 442), (444, 447), (452, 659), (661, 696), (704, 705), (736, 740), (837, 837),
     (880, 883), (886, 887), (890, 893), (895, 895), (902, 902), (904, 906), (908, 908),
     (910, 929), (931, 1013), (1015, 1023)]"

definition ignorable_ranges :: "(nat \<times> nat) list" where
  "ignorable_ranges =
    [(39, 39), (46, 46), (58, 58), (94, 94), (96, 96), (168, 168), (173, 173), (175, 175),
     (180, 180), (183, 184), (688, 879), (884, 885), (890, 890), (900, 901), (903, 903)]"

definition in_ranges :: "(nat \<times> nat) list \<Rightarrow> nat \<Rightarrow> bool" where
  "in_ranges rs u = list_ex (\<lambda>(lo, hi). lo \<le> u \<and> u \<le> hi) rs"

text \<open>Below 256 the capitals are A to Z and U+00C0 to U+00DE except the multiplication
  sign U+00D7; the small letter is 32 above.\<close>

definition lowerLatin1 :: "nat \<Rightarrow> nat" where
  "lowerLatin1 u =
     (if (65 \<le> u \<and> u \<le> 90) \<or> (192 \<le> u \<and> u \<le> 222 \<and> u \<noteq> 215) then u + 32 else u)"

definition lowerUnit :: "nat \<Rightarrow> nat list" where
  "lowerUnit u =
     (if u < 256 then [lowerLatin1 u]
      else (case map_of lower_table u of Some v \<Rightarrow> v | None \<Rightarrow> [u]))"

text \<open>The nearest code unit that is not case-ignorable exists and is cased. The argument
  lists the code units on one side, nearest first.\<close>

definition cased_next :: "nat list \<Rightarrow> bool" where
  "cased_next us =
     (case dropWhile (in_ranges ignorable_ranges) us of
        [] \<Rightarrow> False
      | c # cs \<Rightarrow> in_ranges cased_ranges c)"

text \<open>\<open>lowerFrom b s\<close> lowers \<open>s\<close>, where \<open>b\<close> lists the code units before \<open>s\<close>, nearest
  first.\<close>

fun lowerFrom :: "nat list \<Rightarrow> jsstring \<Rightarrow> jsstring" where
  "lowerFrom b [] = []"
| "lowerFrom b (u # us) =
     (if u = 931 then (if cased_next b \<and> \<not> cased_next us then [962] else lowerUnit u)
      else lowerUnit u)
     @ lowerFrom (u # b) us"

definition toLowerCase :: "jsstring \<Rightarrow> jsstring" where
  "toLowerCase s = lowerFrom [] s"

subsection \<open>Tasks and component state\<close>

text \<open>A task object; \<open>todo_id\<close> is the source's \<open>_id\<close>.\<close>

record todo =
  todo_id :: jsval
  title :: jsval
  description :: jsval
  createdAt :: stamp
  sync :: jsval

text \<open>\<open>formData\<close>: the source's fields \<open>title\<close> and \<open>description\<close>, always strings
  (the initial value and every update come from input elements).\<close>

record form =
  ftitle :: jsstring
  fdescription :: jsstring

datatype request = GET_todos | POST_createTodo form | DELETE_deleteTodo jsval

text \<open>
  An asynchronous function suspended at its \<open>await\<close>. \<open>handleAddTodo\<close> reads \<open>todos\<close> and
  \<open>tempId\<close> in its \<open>catch\<close> block: both are the constants of the call that was suspended.
\<close>

datatype awaiting = AwaitGet | AwaitPost "todo list" jsstring | AwaitDelete

text \<open>The outcome of a request: fulfilled (with \<open>res.data.data\<close>, which only
  \<open>fetchTodos\<close> reads) or rejected.\<close>

datatype response = Fulfilled "todo list" | Rejected

text \<open>The state of the component, with what it has sent, raised and logged. The messages
  of \<open>alert\<close> and \<open>console.error\<close> are the literals of the source.\<close>

record app =
  todos :: "todo list"
  loading :: bool
  searchQuery :: jsstring
  formData :: form
  inflight :: "awaiting list"
  requests :: "request list"
  alerts :: "string list"
  console :: "string list"

definition init :: app where
  "init = \<lparr>todos = [], loading = True, searchQuery = [],
            formData = \<lparr>ftitle = [], fdescription = []\<rparr>,
            inflight = [], requests = [], alerts = [], console = []\<rparr>"

subsection \<open>\<open>fetchTodos\<close>\<close>

definition fetchTodos :: "app \<Rightarrow> app" where
  "fetchTodos s = s\<lparr>inflight := inflight s @ [AwaitGet], requests := requests s @ [GET_todos]\<rparr>"

definition fetchTodos_then :: "todo list \<Rightarrow> app \<Rightarrow> app" where
  "fetchTodos_then d s = s\<lparr>todos := d, loading := False\<rparr>"

definition fetchTodos_catch :: "app \<Rightarrow> app" where
  "fetchTodos_catch s = s\<lparr>console := console s @ [''Fetch error:''], loading := False\<rparr>"

subsection \<open>The filtered view\<close>

text \<open>
  The callback of \<open>todos.filter\<close>, with \<open>toLowerCase\<close> as the parameter \<open>lower\<close>. It is
  called on the title, and on the description only when the title does not match (\<open>||\<close> is
  short-circuit). Calling it on a value that is not a string throws.
\<close>

definition matches :: "(jsstring \<Rightarrow> jsstring) \<Rightarrow> jsstring \<Rightarrow> todo \<Rightarrow> error + bool" where
  "matches lower q t =
     (case title t of
        JString a \<Rightarrow>
          if str_includes (lower a) (lower q) then Inr True
          else (case description t of
                  JString d \<Rightarrow> Inr (str_includes (lower d) (lower q))
                | _ \<Rightarrow> Inl TypeError)
      | _ \<Rightarrow> Inl TypeError)"

text \<open>\<open>Array.prototype.filter\<close> with a callback that may throw: elements are visited in
  order and the first exception ends the call.\<close>

fun filter_js :: "('a \<Rightarrow> error + bool) \<Rightarrow> 'a list \<Rightarrow> error + 'a list" where
  "filter_js p [] = Inr []"
| "filter_js p (x # xs) =
     (case p x of
        Inl e \<Rightarrow> Inl e
      | Inr b \<Rightarrow> (case filter_js p xs of
                    Inl e \<Rightarrow> Inl e
                  | Inr ys \<Rightarrow> Inr (if b then x # ys else ys)))"

definition filteredTodos :: "(jsstring \<Rightarrow> jsstring) \<Rightarrow> app \<Rightarrow> error + todo list" where
  "filteredTodos lower s = filter_js (matches lower (searchQuery s)) (todos s)"

subsection \<open>\<open>handleAddTodo\<close>\<close>

text \<open>The two clock readings are those of \<open>Date.now()\<close> and of \<open>new Date()\<close>.\<close>

definition handleAddTodo :: "nat \<Rightarrow> nat \<Rightarrow> app \<Rightarrow> app" where
  "handleAddTodo now now' s =
     (if trim (ftitle (formData s)) = [] then s
      else
        let tempId = toString now;
            newTodo = \<lparr>todo_id = JString tempId,
                       title = JString (ftitle (formData s)),
                       description = JString (fdescription (formData s)),
                       createdAt = DateObj now',
                       sync = JBool False\<rparr>
        in s\<lparr>todos := newTodo # todos s,
              formData := \<lparr>ftitle = [], fdescription = []\<rparr>,
              inflight := inflight s @ [AwaitPost (todos s) tempId],
              requests := requests s @ [POST_createTodo (formData s)]\<rparr>)"

definition handleAddTodo_then :: "app \<Rightarrow> app" where
  "handleAddTodo_then s = fetchTodos s"

definition handleAddTodo_catch :: "todo list \<Rightarrow> jsstring \<Rightarrow> app \<Rightarrow> app" where
  "handleAddTodo_catch todos0 tempId s =
     s\<lparr>todos := filter (\<lambda>t. todo_id t \<noteq> JString tempId) todos0,
       alerts := alerts s @ [''Failed to save todo.'']\<rparr>"

subsection \<open>\<open>handleDelete\<close>\<close>

definition handleDelete :: "jsval \<Rightarrow> app \<Rightarrow> app" where
  "handleDelete i s =
     s\<lparr>todos := filter (\<lambda>t. todo_id t \<noteq> i) (todos s),
       inflight := inflight s @ [AwaitDelete],
       requests := requests s @ [DELETE_deleteTodo i]\<rparr>"

definition handleDelete_then :: "app \<Rightarrow> app" where
  "handleDelete_then s = s"

definition handleDelete_catch :: "app \<Rightarrow> app" where
  "handleDelete_catch s = fetchTodos s"

subsection \<open>Events\<close>

text \<open>
  What happens to the mounted component: the effect that runs once after mounting, input
  into the three fields, a submit of the form (with the two clock readings), a click on a
  delete button, and the settling of the request at a position of the list of requests in
  flight. The component is rendered again after each event, so a handler called by an event
  reads the state as the previous event left it.
\<close>

datatype event =
    Mount
  | SearchInput jsstring
  | TitleInput jsstring
  | DescriptionInput jsstring
  | Submit nat nat
  | DeleteClick jsval
  | Settle nat response

fun settle :: "awaiting \<Rightarrow> response \<Rightarrow> app \<Rightarrow> app" where
  "settle AwaitGet (Fulfilled d) s = fetchTodos_then d s"
| "settle AwaitGet Rejected s = fetchTodos_catch s"
| "settle (AwaitPost todos0 tempId) (Fulfilled d) s = handleAddTodo_then s"
| "settle (AwaitPost todos0 tempId) Rejected s = handleAddTodo_catch todos0 tempId s"
| "settle AwaitDelete (Fulfilled d) s = handleDelete_then s"
| "settle AwaitDelete Rejected s = handleDelete_catch s"

fun step :: "app \<Rightarrow> event \<Rightarrow> app" where
  "step s Mount = fetchTodos s"
| "step s (SearchInput q) = s\<lparr>searchQuery := q\<rparr>"
| "step s (TitleInput v) = s\<lparr>formData := (formData s)\<lparr>ftitle := v\<rparr>\<rparr>"
| "step s (DescriptionInput v) = s\<lparr>formData := (formData s)\<lparr>fdescription := v\<rparr>\<rparr>"
| "step s (Submit now now') = handleAddTodo now now' s"
| "step s (DeleteClick i) = handleDelete i s"
| "step s (Settle k r) =
     (if k < length (inflight s)
      then settle (inflight s ! k) r (s\<lparr>inflight := take k (inflight s) @ drop (Suc k) (inflight s)\<rparr>)
      else s)"

definition run :: "app \<Rightarrow> event list \<Rightarrow> app" where
  "run s es = foldl step s es"

subsection \<open>Notions used in the properties\<close>

definition ids :: "todo list \<Rightarrow> jsval list" where
  "ids ts = map todo_id ts"

text \<open>A task of the data model carries text in \<open>title\<close> and \<open>description\<close>.\<close>

definition isString :: "jsval \<Rightarrow> bool" where
  "isString v = (case v of JString a \<Rightarrow> True | _ \<Rightarrow> False)"

definition text_fields :: "todo \<Rightarrow> bool" where
  "text_fields t = (isString (title t) \<and> isString (description t))"

text \<open>The field is a string, and its lower-casing includes the lower-casing of the
  query.\<close>

definition lowered_includes :: "(jsstring \<Rightarrow> jsstring) \<Rightarrow> jsval \<Rightarrow> jsstring \<Rightarrow> bool" where
  "lowered_includes lower v q =
     (case v of JString a \<Rightarrow> str_includes (lower a) (lower q) | _ \<Rightarrow> False)"

text \<open>
  Case-insensitive substring match, in the words of the specification: the field is a text
  of which some contiguous part has the length of the query and agrees with it character
  by character up to letter case. Two characters agree up to letter case when they are
  equal or are the capital and the small form of one letter. The letters listed are those
  of Basic Latin (A to Z with a to z) and of Latin-1 (U+00C0 to U+00DE without U+00D7, with
  U+00E0 to U+00FE without U+00F7).
\<close>

definition letter_pairs :: "(nat \<times> nat) list" where
  "letter_pairs = zip ([65..<91] @ [192..<215] @ [216..<223]) ([97..<123] @ [224..<247] @ [248..<255])"

definition same_letter :: "nat \<Rightarrow> nat \<Rightarrow> bool" where
  "same_letter a b = (a = b \<or> (a, b) \<in> set letter_pairs \<or> (b, a) \<in> set letter_pairs)"

definition contains_ignoring_case :: "jsval \<Rightarrow> jsstring \<Rightarrow> bool" where
  "contains_ignoring_case v q =
     (case v of
        JString a \<Rightarrow> (\<exists>u. sublist u a \<and> list_all2 same_letter u q)
      | _ \<Rightarrow> False)"

text \<open>A text, or a field holding a text, all of whose code units are in Basic Latin or
  Latin-1.\<close>

definition latin1 :: "jsstring \<Rightarrow> bool" where
  "latin1 a = list_all (\<lambda>u. u < 256) a"

definition latin1_field :: "jsval \<Rightarrow> bool" where
  "latin1_field v = (case v of JString a \<Rightarrow> latin1 a | _ \<Rightarrow> False)"

text \<open>
  Conditions on the environment under which identifiers stay unique: a list response has
  pairwise distinct identifiers, and the clock reading of a create does not print as an
  identifier that is already in the collection.
\<close>

fun fresh :: "app \<Rightarrow> event \<Rightarrow> bool" where
  "fresh s (Submit now now') =
     (trim (ftitle (formData s)) \<noteq> [] \<longrightarrow> JString (toString now) \<notin> set (ids (todos s)))"
| "fresh s (Settle k (Fulfilled d)) =
     (k < length (inflight s) \<and> inflight s ! k = AwaitGet \<longrightarrow> distinct (ids d))"
| "fresh s e = True"

fun fresh_run :: "app \<Rightarrow> event list \<Rightarrow> bool" where
  "fresh_run s [] = True"
| "fresh_run s (e # es) = (fresh s e \<and> fresh_run (step s e) es)"

text \<open>The collection, and every collection remembered by a suspended \<open>handleAddTodo\<close>,
  has pairwise distinct identifiers.\<close>

definition unique_ids :: "app \<Rightarrow> bool" where
  "unique_ids s =
     (distinct (ids (todos s)) \<and>
      (\<forall>a \<in> set (inflight s). case a of AwaitPost ts tempId \<Rightarrow> distinct (ids ts) | _ \<Rightarrow> True))"

subsection \<open>Example data\<close>

definition ex_a :: todo where
  "ex_a = \<lparr>todo_id = JString (units ''a''), title = JString (units ''Alpha''),
           description = JString (units ''first''),
           createdAt = FromServer (JString (units ''2024-01-01T00:00:00.000Z'')),
           sync = JUndefined\<rparr>"

definition ex_b :: todo where
  "ex_b = \<lparr>todo_id = JString (units ''b''), title = JString (units ''Beta''),
           description = JString (units ''second''),
           createdAt = FromServer (JString (units ''2024-01-02T00:00:00.000Z'')),
           sync = JUndefined\<rparr>"

text \<open>A task as a server may send it, with no \<open>description\<close>.\<close>

definition ex_c :: todo where
  "ex_c = \<lparr>todo_id = JString (units ''c''), title = JString (units ''Gamma''),
           description = JUndefined,
           createdAt = FromServer (JString (units ''2024-01-03T00:00:00.000Z'')),
           sync = JUndefined\<rparr>"

text \<open>A task to which the store gave a millisecond timestamp as identifier.\<close>

definition ex_t :: todo where
  "ex_t = \<lparr>todo_id = JString (units ''1700000000000''), title = JString (units ''Delta''),
           description = JString (units ''fourth''),
           createdAt = FromServer (JString (units ''2023-11-14T22:13:20.000Z'')),
           sync = JUndefined\<rparr>"

text \<open>A task whose title is the two Greek capitals alpha and sigma, U+0391 U+03A3.\<close>

definition ex_sigma :: todo where
  "ex_sigma = \<lparr>todo_id = JString (units ''s''), title = JString [913, 931],
               description = JString (units ''Greek''),
               createdAt = FromServer (JString (units ''2024-01-04T00:00:00.000Z'')),
               sync = JUndefined\<rparr>"

text \<open>A task whose title is the capital I with dot above, U+0130.\<close>

definition ex_i :: todo where
  "ex_i = \<lparr>todo_id = JString (units ''i''), title = JString [304],
           description = JString (units ''Turkish''),
           createdAt = FromServer (JString (units ''2024-01-05T00:00:00.000Z'')),
           sync = JUndefined\<rparr>"

text \<open>The component after mounting and a first load that returned \<open>ex_a\<close> and \<open>ex_b\<close>.\<close>

definition ready_ab :: app where
  "ready_ab = run init [Mount, Settle 0 (Fulfilled [ex_a, ex_b])]"

section \<open>Properties\<close>

subsection \<open>Auxiliary facts\<close>

lemmas op_defs = fetchTodos_def fetchTodos_then_def fetchTodos_catch_def handleAddTodo_then_def
  handleAddTodo_catch_def handleDelete_def handleDelete_then_def handleDelete_catch_def

lemma ready_ab_eq:
  "ready_ab = \<lparr>todos = [ex_a, ex_b], loading = False, searchQuery = [],
      formData = \<lparr>ftitle = [], fdescription = []\<rparr>,
      inflight = [], requests = [GET_todos], alerts = [], console = []\<rparr>"
  by (simp add: ready_ab_def run_def init_def op_defs)

lemma trim_Nil_iff: "trim v = [] \<longleftrightarrow> (\<forall>c \<in> set v. isWhitespace c)"
proof
  assume "trim v = []"
  then have "\<forall>c \<in> set (dropWhile isWhitespace v). isWhitespace c"
    by (simp add: trim_def)
  then have "dropWhile isWhitespace v = []"
    by (metis hd_dropWhile hd_in_set)
  then show "\<forall>c \<in> set v. isWhitespace c"
    by simp
next
  assume "\<forall>c \<in> set v. isWhitespace c"
  then show "trim v = []"
    by (auto simp: trim_def dest: set_dropWhileD)
qed

subsection \<open>The loading flag\<close>

lemma loading_step: "\<not> loading s \<Longrightarrow> \<not> loading (step s e)"
proof (cases e)
  case (Settle k r)
  assume nl: "\<not> loading s"
  show ?thesis
  proof (cases "k < length (inflight s)")
    case True
    with nl Settle show ?thesis
      by (cases "inflight s ! k"; cases r) (simp_all add: op_defs)
  next
    case False
    with nl Settle show ?thesis by simp
  qed
qed (simp_all add: op_defs handleAddTodo_def Let_def)

lemma loading_run: "\<not> loading s \<Longrightarrow> \<not> loading (run s es)"
  unfolding run_def
  by (induction es arbitrary: s) (simp_all add: loading_step)

lemma loading_settle_get: "\<not> loading (settle AwaitGet r s)"
  by (cases r) (simp_all add: op_defs)

text \<open>
  Claim C9. The component starts with the loading flag set, and the flag stays set while
  the first fetch is in flight. When that fetch settles, with either outcome \<open>r\<close>, the
  flag is cleared, and it is clear after every further sequence of events \<open>es\<close>: form
  input, creates, deletes and the settling of their requests, including the nested calls of
  \<open>fetchTodos\<close>. The last conjunct says the same of the settling of any fetch in any state.
\<close>

theorem loading_cleared_for_good:
  "loading init \<and> loading (step init Mount)
   \<and> \<not> loading (run init (Mount # Settle 0 r # es))
   \<and> \<not> loading (run (settle AwaitGet r s) es)"
proof -
  have a: "loading init \<and> loading (step init Mount)"
    by (simp add: init_def fetchTodos_def)
  have b: "\<not> loading (run (settle AwaitGet r s) es)" for s
    by (rule loading_run) (rule loading_settle_get)
  have "run init (Mount # Settle 0 r # es)
        = run (settle AwaitGet r ((fetchTodos init)\<lparr>inflight := []\<rparr>)) es"
    by (simp add: run_def init_def fetchTodos_def)
  with a b show ?thesis by simp
qed

subsection \<open>Loading the collection\<close>

text \<open>
  Claim C3. When the request of \<open>fetchTodos\<close> is fulfilled with the list \<open>d\<close>, the
  collection becomes \<open>d\<close> itself, whatever it was before: same tasks, same order. When the
  request is rejected, the state changes only in the console (one logged line) and the
  loading flag: the collection is the one before, no notification is raised and no request
  is issued. The last conjunct says the same of the event that settles a fetch in flight at
  position \<open>k\<close>.
\<close>

theorem fetchTodos_replaces_or_keeps:
  "todos (settle AwaitGet (Fulfilled d) s) = d
   \<and> settle AwaitGet Rejected s = s\<lparr>console := console s @ [''Fetch error:''], loading := False\<rparr>
   \<and> todos (settle AwaitGet Rejected s) = todos s
   \<and> alerts (settle AwaitGet Rejected s) = alerts s
   \<and> requests (settle AwaitGet Rejected s) = requests s
   \<and> inflight (settle AwaitGet Rejected s) = inflight s
   \<and> (k < length (inflight s0) \<and> inflight s0 ! k = AwaitGet \<longrightarrow>
        todos (step s0 (Settle k (Fulfilled d))) = d
        \<and> todos (step s0 (Settle k Rejected)) = todos s0)"
  by (simp add: op_defs)

theorem fetchTodos_replaces_or_keeps_witness:
  "todos (step (step ready_ab Mount) (Settle 0 (Fulfilled [ex_b, ex_a]))) = [ex_b, ex_a]
   \<and> todos (step (step ready_ab Mount) (Settle 0 Rejected)) = [ex_a, ex_b]"
proof -
  have h: "0 < length (inflight (step ready_ab Mount)) \<and> inflight (step ready_ab Mount) ! 0 = AwaitGet"
    by (simp add: ready_ab_eq fetchTodos_def)
  have t: "todos (step ready_ab Mount) = [ex_a, ex_b]"
    by (simp add: ready_ab_eq fetchTodos_def)
  from fetchTodos_replaces_or_keeps [of "[ex_b, ex_a]" "step ready_ab Mount" 0 "step ready_ab Mount"] h
  have "todos (step (step ready_ab Mount) (Settle 0 (Fulfilled [ex_b, ex_a]))) = [ex_b, ex_a]
        \<and> todos (step (step ready_ab Mount) (Settle 0 Rejected)) = todos (step ready_ab Mount)"
    by blast
  with t show ?thesis by simp
qed

subsection \<open>Deleting a task\<close>

text \<open>
  Claim C5, as amended. The call \<open>handleDelete i\<close> leaves in the collection exactly the
  tasks whose identifier is not \<open>i\<close>, in their order, while its request is still in flight:
  every task with identifier \<open>i\<close> is removed, and every other task keeps its place among the
  others. When no task has identifier \<open>i\<close> the collection is the one before, and nothing is
  raised or logged. When the identifiers in the collection are pairwise distinct and the
  task \<open>t\<close> between \<open>xs\<close> and \<open>ys\<close> has identifier \<open>i\<close>, the result is \<open>xs\<close> followed by
  \<open>ys\<close>: the one entry is absent and nothing else changed.
\<close>

theorem handleDelete_removes:
  "todos (handleDelete i s) = filter (\<lambda>t. todo_id t \<noteq> i) (todos s)
   \<and> i \<notin> set (ids (todos (handleDelete i s)))
   \<and> (i \<notin> set (ids (todos s)) \<longrightarrow> todos (handleDelete i s) = todos s)
   \<and> (distinct (ids (todos s)) \<and> todos s = xs @ t # ys \<and> todo_id t = i
        \<longrightarrow> todos (handleDelete i s) = xs @ ys)
   \<and> inflight (handleDelete i s) = inflight s @ [AwaitDelete]
   \<and> requests (handleDelete i s) = requests s @ [DELETE_deleteTodo i]
   \<and> alerts (handleDelete i s) = alerts s \<and> console (handleDelete i s) = console s"
proof -
  have a: "i \<notin> set (ids ts) \<Longrightarrow> filter (\<lambda>t. todo_id t \<noteq> i) ts = ts" for ts
    by (induction ts) (auto simp: ids_def)
  have b: "filter (\<lambda>t. todo_id t \<noteq> i) (xs @ t # ys) = xs @ ys"
    if "distinct (ids (xs @ t # ys))" "todo_id t = i"
  proof -
    from that have "i \<notin> set (ids xs)" "i \<notin> set (ids ys)"
      by (auto simp: ids_def)
    then show ?thesis using that(2) by (simp add: a)
  qed
  show ?thesis
    using a [of "todos s"] b by (auto simp: handleDelete_def ids_def)
qed

theorem handleDelete_removes_witness:
  "todos (handleDelete (JString (units ''a'')) ready_ab) = [ex_b]
   \<and> todos (handleDelete (JString (units ''zz'')) ready_ab) = [ex_a, ex_b]"
proof -
  have d: "distinct (ids (todos ready_ab)) \<and> todos ready_ab = [] @ ex_a # [ex_b]
           \<and> todo_id ex_a = JString (units ''a'')"
    by (simp add: ready_ab_eq ids_def ex_a_def ex_b_def units_def)
  have n: "JString (units ''zz'') \<notin> set (ids (todos ready_ab))"
    by (simp add: ready_ab_eq ids_def ex_a_def ex_b_def units_def)
  from handleDelete_removes [of "JString (units ''a'')" ready_ab "[]" ex_a "[ex_b]"] d
  have 1: "todos (handleDelete (JString (units ''a'')) ready_ab) = [] @ [ex_b]" by blast
  from handleDelete_removes [of "JString (units ''zz'')" ready_ab "[]" ex_a "[ex_b]"] n
  have 2: "todos (handleDelete (JString (units ''zz'')) ready_ab) = todos ready_ab" by blast
  from 1 2 show ?thesis by (simp add: ready_ab_eq)
qed

text \<open>
  Claim C5 as stated fails on a collection in which two tasks have the same identifier: one
  call removes both. Two creates at the same clock reading give such a collection, and a
  delete of that identifier empties it.
\<close>

theorem handleDelete_removes_both_counterexample:
  "todos (run init [Mount, Settle 0 (Fulfilled []),
                    TitleInput (units ''A''), Submit 1700000000000 1700000000000,
                    TitleInput (units ''B''), Submit 1700000000000 1700000000000])
     = [\<lparr>todo_id = JString (units ''1700000000000''), title = JString (units ''B''),
          description = JString [], createdAt = DateObj 1700000000000, sync = JBool False\<rparr>,
        \<lparr>todo_id = JString (units ''1700000000000''), title = JString (units ''A''),
          description = JString [], createdAt = DateObj 1700000000000, sync = JBool False\<rparr>]
   \<and> todos (run init [Mount, Settle 0 (Fulfilled []),
                    TitleInput (units ''A''), Submit 1700000000000 1700000000000,
                    TitleInput (units ''B''), Submit 1700000000000 1700000000000,
                    DeleteClick (JString (units ''1700000000000''))])
     = []"
  by (simp add: run_def init_def op_defs handleAddTodo_def Let_def trim_def isWhitespace_def
        toString.simps digitChar_def units_def)




subsection \<open>Creating a task\<close>

text \<open>
  Claim C7. When every character of the title in the form is white space (so also when the
  title is empty), a submit returns the state it was given: the collection, the form, the
  requests issued and in flight, the notifications and the console are all as before.
\<close>

theorem blank_title_is_ignored:
  assumes "\<forall>c \<in> set (ftitle (formData s)). isWhitespace c"
  shows "handleAddTodo now now' s = s \<and> step s (Submit now now') = s"
  using assms by (simp add: handleAddTodo_def trim_Nil_iff)

theorem blank_title_is_ignored_witness:
  "ftitle (formData (step (step ready_ab (TitleInput (units ''   ''))) (DescriptionInput (units ''desc'')))) = (units ''   '')
   \<and> isWhitespace 32
   \<and> step (step (step ready_ab (TitleInput (units ''   ''))) (DescriptionInput (units ''desc''))) (Submit 1000 1000)
     = step (step ready_ab (TitleInput (units ''   ''))) (DescriptionInput (units ''desc''))"
proof -
  have t: "ftitle (formData (step (step ready_ab (TitleInput (units ''   ''))) (DescriptionInput (units ''desc'')))) = (units ''   '')"
    by simp
  have w: "isWhitespace 32"
    by (simp add: isWhitespace_def)
  from t w have h: "\<forall>c \<in> set (ftitle (formData (step (step ready_ab (TitleInput (units ''   ''))) (DescriptionInput (units ''desc''))))).
      isWhitespace c"
    by (simp add: units_def)
  from blank_title_is_ignored [OF h, of 1000 1000] t w show ?thesis by blast
qed

lemma digitChar_inj: "digitChar a = digitChar b \<Longrightarrow> a = b"
  by (simp add: digitChar_def)

lemma toString_not_Nil: "toString n \<noteq> []"
  by (subst toString.simps) simp

lemma toString_inj: "toString n = toString m \<Longrightarrow> n = m"
proof (induction n arbitrary: m rule: toString.induct)
  case (1 n)
  show ?case
  proof (cases "n < 10")
    case True
    note n = this
    show ?thesis
    proof (cases "m < 10")
      case True
      with n "1.prems" show ?thesis
        by (simp add: toString.simps [of n] toString.simps [of m] digitChar_def)
    next
      case False
      with n "1.prems" show ?thesis
        by (simp add: toString.simps [of n] toString.simps [of m] toString_not_Nil toString_not_Nil [THEN not_sym])
    qed
  next
    case False
    note n = this
    show ?thesis
    proof (cases "m < 10")
      case True
      with n "1.prems" show ?thesis
        by (simp add: toString.simps [of n] toString.simps [of m] toString_not_Nil toString_not_Nil [THEN not_sym])
    next
      case False
      with n "1.prems" have e: "toString (n div 10) = toString (m div 10)"
        and d: "digitChar (n mod 10) = digitChar (m mod 10)"
        by (simp_all add: toString.simps [of n] toString.simps [of m])
      from "1.IH" [OF n e] have q: "n div 10 = m div 10" .
      from d have r: "n mod 10 = m mod 10"
        by (rule digitChar_inj)
      from q r show ?thesis
        by (metis div_mult_mod_eq)
    qed
  qed
qed

text \<open>
  Claim C4, as amended. When the title in the form has a character that is not white
  space, a submit puts a new task in front of the collection as it was, which follows
  unchanged. The new task has the decimal print of the clock reading as identifier, the title
  and description of the form, the second clock reading as \<open>createdAt\<close> and \<open>sync\<close>
  false. In the state returned the create request has been issued and is still in flight,
  and the form is cleared. Every other clock reading prints a different identifier; the
  identifier is not compared with those in the collection.
\<close>

theorem handleAddTodo_inserts_at_front:
  assumes "\<exists>c \<in> set (ftitle (formData s)). \<not> isWhitespace c"
  shows "todos (handleAddTodo now now' s)
           = \<lparr>todo_id = JString (toString now),
              title = JString (ftitle (formData s)),
              description = JString (fdescription (formData s)),
              createdAt = DateObj now',
              sync = JBool False\<rparr> # todos s
         \<and> inflight (handleAddTodo now now' s) = inflight s @ [AwaitPost (todos s) (toString now)]
         \<and> requests (handleAddTodo now now' s) = requests s @ [POST_createTodo (formData s)]
         \<and> formData (handleAddTodo now now' s) = \<lparr>ftitle = [], fdescription = []\<rparr>
         \<and> (\<forall>m. m \<noteq> now \<longrightarrow> toString m \<noteq> toString now)"
proof -
  from assms have "trim (ftitle (formData s)) \<noteq> []"
    by (simp add: trim_Nil_iff)
  moreover have "\<forall>m. m \<noteq> now \<longrightarrow> toString m \<noteq> toString now"
    using toString_inj by blast
  ultimately show ?thesis
    by (simp add: handleAddTodo_def Let_def)
qed

theorem handleAddTodo_inserts_at_front_witness:
  "(\<exists>c \<in> set (ftitle (formData (step (step ready_ab (TitleInput (units ''Buy milk''))) (DescriptionInput (units ''2%''))))). \<not> isWhitespace c)
   \<and> todos (handleAddTodo 1700000000000 1700000000001 (step (step ready_ab (TitleInput (units ''Buy milk''))) (DescriptionInput (units ''2%''))))
      = [\<lparr>todo_id = JString (units ''1700000000000''), title = JString (units ''Buy milk''),
          description = JString (units ''2%''), createdAt = DateObj 1700000000001, sync = JBool False\<rparr>,
         ex_a, ex_b]"
proof -
  let ?s = "step (step ready_ab (TitleInput (units ''Buy milk''))) (DescriptionInput (units ''2%''))"
  have h: "\<exists>c \<in> set (ftitle (formData ?s)). \<not> isWhitespace c"
    by (simp add: isWhitespace_def units_def)
  have t: "toString 1700000000000 = (units ''1700000000000'')"
    by (simp add: toString.simps digitChar_def units_def)
  from handleAddTodo_inserts_at_front [OF h, of 1700000000000 1700000000001] h t
  show ?thesis by (simp add: ready_ab_eq)
qed

text \<open>
  Claim C4 as stated fails in that the identifier need not be fresh: the collection holds
  \<open>ex_t\<close>, and a create at the clock reading 1700000000000 puts in front of it a task
  with the identifier of \<open>ex_t\<close>.
\<close>

theorem temporary_id_not_fresh_counterexample:
  "todos (run init [Mount, Settle 0 (Fulfilled [ex_t]), TitleInput (units ''A''),
                    Submit 1700000000000 1700000000000])
     = [\<lparr>todo_id = JString (units ''1700000000000''), title = JString (units ''A''), description = JString [],
          createdAt = DateObj 1700000000000, sync = JBool False\<rparr>, ex_t]
   \<and> todo_id ex_t = JString (units ''1700000000000'')"
  by (simp add: run_def init_def op_defs handleAddTodo_def Let_def trim_def isWhitespace_def
        toString.simps digitChar_def ex_t_def units_def)

subsection \<open>The filtered view\<close>

lemmas lower_eval = toLowerCase_def lowerUnit_def lowerLatin1_def cased_next_def in_ranges_def
  cased_ranges_def ignorable_ranges_def lower_table_def

lemmas view_eval = filteredTodos_def matches_def str_includes_def sublist_code init_def units_def

lemma filter_js_Inr:
  "(\<forall>x \<in> set xs. \<exists>b. p x = Inr b) \<Longrightarrow> filter_js p xs = Inr (filter (\<lambda>x. p x = Inr True) xs)"
  by (induction xs) auto

lemma filter_js_Inr_D: "filter_js p xs = Inr r \<Longrightarrow> \<forall>x \<in> set xs. \<exists>b. p x = Inr b"
  by (induction xs arbitrary: r) (auto split: sum.splits)

lemma filter_js_idem: "filter_js p xs = Inr r \<Longrightarrow> filter_js p r = Inr r"
  by (induction xs arbitrary: r) (auto split: sum.splits if_splits)

lemma filter_js_returns_iff:
  "(\<exists>r. filter_js p xs = Inr r) \<longleftrightarrow> (\<forall>x \<in> set xs. \<exists>b. p x = Inr b)"
  using filter_js_Inr [of xs p] filter_js_Inr_D [of p xs] by blast

lemma matches_returns_iff:
  "(\<exists>b. matches lower q t = Inr b) \<longleftrightarrow>
   (\<exists>a. title t = JString a \<and> (str_includes (lower a) (lower q) \<or> isString (description t)))"
  by (cases "title t"; cases "description t") (auto simp: matches_def isString_def)

lemma matches_text:
  assumes "text_fields t"
  shows "matches lower q t
           = Inr (lowered_includes lower (title t) q \<or> lowered_includes lower (description t) q)"
proof -
  from assms obtain a d where "title t = JString a" "description t = JString d"
    by (auto simp: text_fields_def isString_def split: jsval.splits)
  then show ?thesis
    by (simp add: matches_def lowered_includes_def)
qed

text \<open>On Basic Latin and Latin-1 the function lowers each code unit by itself.\<close>

lemma lowerFrom_latin1: "latin1 s \<Longrightarrow> lowerFrom b s = map lowerLatin1 s"
  by (induction s arbitrary: b) (simp_all add: latin1_def lowerUnit_def)

lemma toLowerCase_latin1: "latin1 s \<Longrightarrow> toLowerCase s = map lowerLatin1 s"
  by (simp add: toLowerCase_def lowerFrom_latin1)

text \<open>The pairs of letters of the specification, and what the code computes.\<close>

lemma letter_pairs_iff:
  "(a, b) \<in> set letter_pairs \<longleftrightarrow>
   ((65 \<le> a \<and> a \<le> 90) \<or> (192 \<le> a \<and> a \<le> 222 \<and> a \<noteq> 215)) \<and> b = a + 32"
proof -
  have z: "(a, b) \<in> set (zip [m..<n] [m + 32..<n + 32]) \<longleftrightarrow> m \<le> a \<and> a < n \<and> b = a + 32"
    for m n :: nat
  proof
    assume "(a, b) \<in> set (zip [m..<n] [m + 32..<n + 32])"
    then obtain i where "i < n - m" "[m..<n] ! i = a" "[m + 32..<n + 32] ! i = b"
      by (auto simp: in_set_zip)
    then show "m \<le> a \<and> a < n \<and> b = a + 32" by auto
  next
    assume h: "m \<le> a \<and> a < n \<and> b = a + 32"
    then have "a - m < n - m" "[m..<n] ! (a - m) = a" "[m + 32..<n + 32] ! (a - m) = b"
      by auto
    then show "(a, b) \<in> set (zip [m..<n] [m + 32..<n + 32])"
      unfolding in_set_zip by (intro exI [of _ "a - m"]) auto
  qed
  have lp: "letter_pairs = zip [65..<91] [65 + 32..<91 + 32] @ zip [192..<215] [192 + 32..<215 + 32]
                         @ zip [216..<223] [216 + 32..<223 + 32]"
    by (simp add: letter_pairs_def)
  have "(a, b) \<in> set letter_pairs \<longleftrightarrow>
      (65 \<le> a \<and> a < 91 \<and> b = a + 32) \<or> (192 \<le> a \<and> a < 215 \<and> b = a + 32)
      \<or> (216 \<le> a \<and> a < 223 \<and> b = a + 32)"
    unfolding lp set_append Un_iff z by blast
  then show ?thesis by auto
qed

lemma same_letter_iff: "same_letter a b \<longleftrightarrow> lowerLatin1 a = lowerLatin1 b"
  unfolding same_letter_def letter_pairs_iff lowerLatin1_def by (simp split: if_splits) arith

lemma same_letter_map: "list_all2 same_letter u q \<longleftrightarrow> map lowerLatin1 u = map lowerLatin1 q"
proof (induction u arbitrary: q)
  case Nil
  show ?case by auto
next
  case (Cons x u)
  then show ?case by (cases q) (auto simp: same_letter_iff)
qed

lemma sublist_map_iff:
  "sublist (map f q) (map f a) \<longleftrightarrow> (\<exists>u. sublist u a \<and> map f u = map f q)"
proof
  assume "sublist (map f q) (map f a)"
  then obtain ps ss where "map f a = ps @ map f q @ ss"
    by (auto simp: sublist_def)
  then obtain a1 r where 1: "a = a1 @ r" "map f r = map f q @ ss"
    by (metis map_eq_append_conv)
  from 1(2) obtain a2 a3 where 2: "r = a2 @ a3" "map f a2 = map f q"
    by (metis map_eq_append_conv)
  from 1(1) 2 have "a = a1 @ a2 @ a3" "map f a2 = map f q"
    by simp_all
  then show "\<exists>u. sublist u a \<and> map f u = map f q"
    by (auto simp: sublist_def)
next
  assume "\<exists>u. sublist u a \<and> map f u = map f q"
  then obtain u where "sublist u a" "map f u = map f q" by blast
  then show "sublist (map f q) (map f a)"
    by (metis map_mono_sublist)
qed

lemma contains_ignoring_case_eq:
  "contains_ignoring_case (JString a) q \<longleftrightarrow> sublist (map lowerLatin1 q) (map lowerLatin1 a)"
  by (simp add: contains_ignoring_case_def sublist_map_iff same_letter_map)

lemma lowered_includes_latin1:
  assumes "latin1_field v" and "latin1 q"
  shows "lowered_includes toLowerCase v q \<longleftrightarrow> contains_ignoring_case v q"
proof -
  from assms(1) obtain a where v: "v = JString a" and a: "latin1 a"
    by (auto simp: latin1_field_def split: jsval.splits)
  from a assms(2) show ?thesis
    by (simp add: v lowered_includes_def str_includes_def toLowerCase_latin1
          contains_ignoring_case_eq)
qed

lemma latin1_field_isString: "latin1_field v \<Longrightarrow> isString v"
  by (auto simp: latin1_field_def isString_def split: jsval.splits)

lemma longer_query_not_included: "\<exists>q. \<not> str_includes (toLowerCase a) (toLowerCase q)"
proof -
  let ?q = "replicate (Suc (length (toLowerCase a))) (120::nat)"
  have "latin1 ?q" by (simp add: latin1_def list_all_iff)
  then have "toLowerCase ?q = ?q"
    by (simp add: toLowerCase_latin1 lowerLatin1_def)
  then have "length (toLowerCase a) < length (toLowerCase ?q)" by simp
  then have "\<not> str_includes (toLowerCase a) (toLowerCase ?q)"
    unfolding str_includes_def by (metis sublist_length_le not_less)
  then show ?thesis ..
qed

text \<open>
  Claim C10, as amended. \<open>toLowerCase\<close> is applied to the title of every task, and to its
  description only when the lowered title does not include the lowered query. So at a given
  query the filtered view returns a list exactly when every title is a string and every task
  whose title does not match has a string for description; this holds of whatever function
  \<open>toLowerCase\<close> is. It returns in particular when the title and the description of every
  task are strings; and, since every lowered title fails to include some lowered query, it
  returns at every query only then. Otherwise it throws: the collection of \<open>ex_a\<close> and
  \<open>ex_c\<close>, the latter without a description, throws at the query \<open>milk\<close>.
\<close>

theorem filteredTodos_returns_iff:
  "((\<exists>r. filteredTodos lower s = Inr r) \<longleftrightarrow>
      (\<forall>t \<in> set (todos s). \<exists>a. title t = JString a
          \<and> (str_includes (lower a) (lower (searchQuery s)) \<or> isString (description t))))
   \<and> ((\<forall>t \<in> set (todos s). text_fields t) \<longrightarrow> (\<exists>r. filteredTodos lower s = Inr r))
   \<and> ((\<forall>a. \<exists>q. \<not> str_includes (lower a) (lower q))
        \<and> (\<forall>q. \<exists>r. filteredTodos lower (s\<lparr>searchQuery := q\<rparr>) = Inr r)
          \<longrightarrow> (\<forall>t \<in> set (todos s). text_fields t))
   \<and> filteredTodos toLowerCase (init\<lparr>todos := [ex_a, ex_c], searchQuery := units ''milk''\<rparr>)
       = Inl TypeError"
proof -
  have 1: "(\<exists>r. filteredTodos lower s = Inr r) \<longleftrightarrow>
      (\<forall>t \<in> set (todos s). \<exists>a. title t = JString a
          \<and> (str_includes (lower a) (lower (searchQuery s)) \<or> isString (description t)))"
    for lower s
    by (simp add: filteredTodos_def filter_js_returns_iff matches_returns_iff)
  have 2: "\<exists>r. filteredTodos lower s = Inr r" if h: "\<forall>t \<in> set (todos s). text_fields t"
  proof -
    have "\<forall>t \<in> set (todos s). \<exists>a. title t = JString a
          \<and> (str_includes (lower a) (lower (searchQuery s)) \<or> isString (description t))"
    proof
      fix t assume "t \<in> set (todos s)"
      with h have "text_fields t" ..
      then obtain a where "title t = JString a" "isString (description t)"
        by (cases "title t") (auto simp: text_fields_def isString_def)
      then show "\<exists>a. title t = JString a
          \<and> (str_includes (lower a) (lower (searchQuery s)) \<or> isString (description t))"
        by blast
    qed
    then show ?thesis by (simp only: 1)
  qed
  have 3: "\<forall>t \<in> set (todos s). text_fields t"
    if long: "\<forall>a. \<exists>q. \<not> str_includes (lower a) (lower q)"
      and tot: "\<forall>q. \<exists>r. filteredTodos lower (s\<lparr>searchQuery := q\<rparr>) = Inr r"
  proof
    fix t assume t: "t \<in> set (todos s)"
    from tot [rule_format, of "[]"] t obtain a where a: "title t = JString a"
      unfolding 1 by auto
    obtain q where q: "\<not> str_includes (lower a) (lower q)"
      using long by blast
    from tot [rule_format, of q] t a q have "isString (description t)"
      unfolding 1 by auto
    with a show "text_fields t"
      by (simp add: text_fields_def isString_def)
  qed
  have 4: "filteredTodos toLowerCase (init\<lparr>todos := [ex_a, ex_c], searchQuery := units ''milk''\<rparr>)
       = Inl TypeError"
    by (simp add: view_eval lower_eval ex_a_def ex_c_def)
  from 1 2 3 4 show ?thesis by blast
qed

theorem filteredTodos_returns_iff_witness:
  "todos ready_ab = [ex_a, ex_b] \<and> text_fields ex_a \<and> text_fields ex_b
   \<and> (\<exists>r. filteredTodos toLowerCase ready_ab = Inr r)
   \<and> \<not> text_fields ex_c
   \<and> \<not> (\<forall>q. \<exists>r. filteredTodos toLowerCase (init\<lparr>todos := [ex_a, ex_c], searchQuery := q\<rparr>) = Inr r)"
proof -
  have f: "todos ready_ab = [ex_a, ex_b] \<and> text_fields ex_a \<and> text_fields ex_b \<and> \<not> text_fields ex_c"
    by (simp add: ready_ab_eq text_fields_def isString_def ex_a_def ex_b_def ex_c_def)
  then have h: "\<forall>t \<in> set (todos ready_ab). text_fields t" by simp
  from f have n: "\<not> (\<forall>t \<in> set (todos (init\<lparr>todos := [ex_a, ex_c]\<rparr>)). text_fields t)" by simp
  from filteredTodos_returns_iff [of toLowerCase ready_ab] h
  have 1: "\<exists>r. filteredTodos toLowerCase ready_ab = Inr r" by blast
  from filteredTodos_returns_iff [of toLowerCase "init\<lparr>todos := [ex_a, ex_c]\<rparr>"] n
    longer_query_not_included
  have 2: "\<not> (\<forall>q. \<exists>r. filteredTodos toLowerCase (init\<lparr>todos := [ex_a, ex_c], searchQuery := q\<rparr>) = Inr r)"
    by auto
  from f 1 2 show ?thesis by blast
qed

text \<open>
  Claim C10 as stated fails in that \<open>toLowerCase\<close> is not applied to every description: on
  the collection of \<open>ex_a\<close> and \<open>ex_c\<close>, where \<open>ex_c\<close> has no description, the view returns
  at the query \<open>gam\<close>, which the title of \<open>ex_c\<close> matches, and at the empty query, which
  every title matches.
\<close>

theorem view_returns_without_description_counterexample:
  "filteredTodos toLowerCase (init\<lparr>todos := [ex_a, ex_c], searchQuery := units ''gam''\<rparr>)
     = Inr [ex_c]
   \<and> filteredTodos toLowerCase (init\<lparr>todos := [ex_a, ex_c], searchQuery := []\<rparr>)
     = Inr [ex_a, ex_c]
   \<and> description ex_c = JUndefined"
  by (simp add: view_eval lower_eval ex_a_def ex_c_def)

text \<open>
  Claim C8, as amended. On a collection whose tasks have a string for title and for
  description, the filtered view is the list of exactly those tasks for which the lowered
  title or the lowered description includes the lowered query, in the order of the
  collection; this holds of whatever function \<open>toLowerCase\<close> is. The view is a value
  computed from the state, which it leaves as it is, and filtering again what the filter
  returned, with the same query, returns it unchanged. When the query, the titles and the
  descriptions are texts of Basic Latin and Latin-1, the tasks selected are exactly those
  whose title or description contains the query as a case-insensitive substring.
\<close>

theorem filteredTodos_lowered_match:
  assumes "\<forall>t \<in> set (todos s). text_fields t"
  shows "filteredTodos lower s
           = Inr (filter (\<lambda>t. lowered_includes lower (title t) (searchQuery s)
                            \<or> lowered_includes lower (description t) (searchQuery s)) (todos s))
         \<and> (\<forall>r. filteredTodos lower s = Inr r \<longrightarrow> filteredTodos lower (s\<lparr>todos := r\<rparr>) = Inr r)
         \<and> (latin1 (searchQuery s)
              \<and> (\<forall>t \<in> set (todos s). latin1_field (title t) \<and> latin1_field (description t))
            \<longrightarrow> filteredTodos toLowerCase s
                  = Inr (filter (\<lambda>t. contains_ignoring_case (title t) (searchQuery s)
                                   \<or> contains_ignoring_case (description t) (searchQuery s))
                                (todos s)))"
proof -
  have 1: "filteredTodos lower s
           = Inr (filter (\<lambda>t. lowered_includes lower (title t) (searchQuery s)
                            \<or> lowered_includes lower (description t) (searchQuery s)) (todos s))"
    if "\<forall>t \<in> set (todos s). text_fields t" for lower
  proof -
    from that have "\<forall>t \<in> set (todos s). \<exists>b. matches lower (searchQuery s) t = Inr b"
      by (simp add: matches_text)
    then have "filteredTodos lower s
        = Inr (filter (\<lambda>t. matches lower (searchQuery s) t = Inr True) (todos s))"
      unfolding filteredTodos_def by (rule filter_js_Inr)
    also have "filter (\<lambda>t. matches lower (searchQuery s) t = Inr True) (todos s)
        = filter (\<lambda>t. lowered_includes lower (title t) (searchQuery s)
                      \<or> lowered_includes lower (description t) (searchQuery s)) (todos s)"
      using that by (intro filter_cong refl) (simp add: matches_text)
    finally show ?thesis .
  qed
  have 2: "\<forall>r. filteredTodos lower s = Inr r \<longrightarrow> filteredTodos lower (s\<lparr>todos := r\<rparr>) = Inr r"
    by (auto simp: filteredTodos_def dest: filter_js_idem)
  have 3: "filteredTodos toLowerCase s
                  = Inr (filter (\<lambda>t. contains_ignoring_case (title t) (searchQuery s)
                                   \<or> contains_ignoring_case (description t) (searchQuery s))
                                (todos s))"
    if q: "latin1 (searchQuery s)"
      and l: "\<forall>t \<in> set (todos s). latin1_field (title t) \<and> latin1_field (description t)"
  proof -
    from l have "\<forall>t \<in> set (todos s). text_fields t"
      by (simp add: text_fields_def latin1_field_isString)
    then have "filteredTodos toLowerCase s
           = Inr (filter (\<lambda>t. lowered_includes toLowerCase (title t) (searchQuery s)
                            \<or> lowered_includes toLowerCase (description t) (searchQuery s)) (todos s))"
      by (rule 1)
    also have "filter (\<lambda>t. lowered_includes toLowerCase (title t) (searchQuery s)
                            \<or> lowered_includes toLowerCase (description t) (searchQuery s)) (todos s)
        = filter (\<lambda>t. contains_ignoring_case (title t) (searchQuery s)
                                   \<or> contains_ignoring_case (description t) (searchQuery s))
                                (todos s)"
      using l q by (intro filter_cong refl) (simp add: lowered_includes_latin1)
    finally show ?thesis .
  qed
  from 1 [OF assms] 2 3 show ?thesis by blast
qed

theorem filteredTodos_lowered_match_witness:
  "todos (ready_ab\<lparr>searchQuery := units ''BE''\<rparr>) = [ex_a, ex_b]
   \<and> text_fields ex_a \<and> text_fields ex_b
   \<and> filteredTodos toLowerCase (ready_ab\<lparr>searchQuery := units ''BE''\<rparr>) = Inr [ex_b]
   \<and> filter (\<lambda>t. contains_ignoring_case (title t) (units ''BE'')
                  \<or> contains_ignoring_case (description t) (units ''BE'')) [ex_a, ex_b] = [ex_b]
   \<and> filteredTodos toLowerCase (ready_ab\<lparr>searchQuery := units ''BE'', todos := [ex_b]\<rparr>) = Inr [ex_b]"
proof -
  let ?s = "ready_ab\<lparr>searchQuery := units ''BE''\<rparr>"
  have f: "todos ?s = [ex_a, ex_b] \<and> text_fields ex_a \<and> text_fields ex_b"
    by (simp add: ready_ab_eq text_fields_def isString_def ex_a_def ex_b_def)
  then have h: "\<forall>t \<in> set (todos ?s). text_fields t" by simp
  have l: "latin1 (searchQuery ?s)
           \<and> (\<forall>t \<in> set (todos ?s). latin1_field (title t) \<and> latin1_field (description t))"
    by (simp add: ready_ab_eq latin1_field_def latin1_def ex_a_def ex_b_def units_def)
  have e: "filteredTodos toLowerCase ?s = Inr [ex_b]"
    by (simp add: ready_ab_eq filteredTodos_def matches_def str_includes_def sublist_code
          units_def lower_eval ex_a_def ex_b_def)
  from filteredTodos_lowered_match [OF h, of toLowerCase] l
  have i: "filteredTodos toLowerCase (?s\<lparr>todos := [ex_b]\<rparr>) = Inr [ex_b]"
    and c: "filteredTodos toLowerCase ?s
              = Inr (filter (\<lambda>t. contains_ignoring_case (title t) (searchQuery ?s)
                               \<or> contains_ignoring_case (description t) (searchQuery ?s))
                            (todos ?s))"
    using e by blast+
  from c e f have "filter (\<lambda>t. contains_ignoring_case (title t) (units ''BE'')
                  \<or> contains_ignoring_case (description t) (units ''BE'')) [ex_a, ex_b] = [ex_b]"
    by simp
  with f e i show ?thesis by simp
qed

text \<open>
  Claim C8 as stated fails in three ways. On a collection with a task that has no
  description the view throws. The title of \<open>ex_sigma\<close> ends in a capital sigma, which is
  lowered to the final sigma, so the query of one capital sigma, lowered to the other small
  sigma, does not select the task whose title contains it. And the title of \<open>ex_i\<close>, U+0130,
  is lowered to two code units, so the query U+0307 selects the task though neither its
  title nor its description contains that code unit.
\<close>

theorem case_insensitive_match_counterexample:
  "filteredTodos toLowerCase (init\<lparr>todos := [ex_a, ex_c], searchQuery := units ''zz''\<rparr>)
     = Inl TypeError
   \<and> filteredTodos toLowerCase (init\<lparr>todos := [ex_sigma], searchQuery := [931]\<rparr>) = Inr []
   \<and> contains_ignoring_case (title ex_sigma) [931]
   \<and> filteredTodos toLowerCase (init\<lparr>todos := [ex_i], searchQuery := [775]\<rparr>) = Inr [ex_i]
   \<and> \<not> contains_ignoring_case (title ex_i) [775]
   \<and> \<not> contains_ignoring_case (description ex_i) [775]"
proof -
  have 1: "filteredTodos toLowerCase (init\<lparr>todos := [ex_a, ex_c], searchQuery := units ''zz''\<rparr>)
     = Inl TypeError"
    by (simp add: view_eval lower_eval ex_a_def ex_c_def)
  have 2: "filteredTodos toLowerCase (init\<lparr>todos := [ex_sigma], searchQuery := [931]\<rparr>) = Inr []"
    by (simp add: view_eval lower_eval ex_sigma_def)
  have 3: "contains_ignoring_case (title ex_sigma) [931]"
    by (simp add: ex_sigma_def contains_ignoring_case_eq sublist_code)
  have 4: "filteredTodos toLowerCase (init\<lparr>todos := [ex_i], searchQuery := [775]\<rparr>) = Inr [ex_i]"
    by (simp add: view_eval lower_eval ex_i_def)
  have 5: "\<not> contains_ignoring_case (title ex_i) [775]
           \<and> \<not> contains_ignoring_case (description ex_i) [775]"
    by (simp add: ex_i_def contains_ignoring_case_eq sublist_code lowerLatin1_def units_def)
  from 1 2 3 4 5 show ?thesis by blast
qed

subsection \<open>Identifiers\<close>

lemma distinct_ids_filter: "distinct (ids ts) \<Longrightarrow> distinct (ids (filter P ts))"
  by (simp add: ids_def distinct_map_filter)

lemma unique_ids_init: "unique_ids init"
  by (simp add: unique_ids_def init_def ids_def)

lemma unique_ids_fetchTodos: "unique_ids s \<Longrightarrow> unique_ids (fetchTodos s)"
  by (simp add: unique_ids_def fetchTodos_def)

lemma unique_ids_drop_request:
  "unique_ids s \<Longrightarrow> unique_ids (s\<lparr>inflight := take k (inflight s) @ drop (Suc k) (inflight s)\<rparr>)"
  by (auto simp: unique_ids_def dest: in_set_takeD in_set_dropD)

lemma unique_ids_settle:
  assumes u: "unique_ids s"
    and a: "case a of AwaitPost ts tempId \<Rightarrow> distinct (ids ts) | _ \<Rightarrow> True"
    and d: "case r of Fulfilled d \<Rightarrow> a = AwaitGet \<longrightarrow> distinct (ids d) | Rejected \<Rightarrow> True"
  shows "unique_ids (settle a r s)"
proof (cases a)
  case AwaitGet
  with u d show ?thesis
    by (cases r) (simp_all add: unique_ids_def fetchTodos_then_def fetchTodos_catch_def)
next
  case (AwaitPost ts tempId)
  with u a show ?thesis
    by (cases r)
       (simp_all add: handleAddTodo_then_def unique_ids_fetchTodos,
        simp add: unique_ids_def handleAddTodo_catch_def distinct_ids_filter)
next
  case AwaitDelete
  with u show ?thesis
    by (cases r) (simp_all add: handleDelete_then_def handleDelete_catch_def unique_ids_fetchTodos)
qed

lemma unique_ids_step:
  assumes u: "unique_ids s" and f: "fresh s e"
  shows "unique_ids (step s e)"
proof (cases e)
  case Mount
  with u show ?thesis by (simp add: unique_ids_fetchTodos)
next
  case (SearchInput q)
  with u show ?thesis by (simp add: unique_ids_def)
next
  case (TitleInput v)
  with u show ?thesis by (simp add: unique_ids_def)
next
  case (DescriptionInput v)
  with u show ?thesis by (simp add: unique_ids_def)
next
  case (Submit now now')
  with u f show ?thesis
    by (simp add: unique_ids_def handleAddTodo_def Let_def ids_def)
next
  case (DeleteClick i)
  with u show ?thesis
    by (simp add: unique_ids_def handleDelete_def distinct_ids_filter)
next
  case (Settle k r)
  show ?thesis
  proof (cases "k < length (inflight s)")
    case False
    with u Settle show ?thesis by simp
  next
    case True
    let ?s = "s\<lparr>inflight := take k (inflight s) @ drop (Suc k) (inflight s)\<rparr>"
    from u have 1: "unique_ids ?s" by (rule unique_ids_drop_request)
    from True have "inflight s ! k \<in> set (inflight s)" by simp
    with u have 2: "case inflight s ! k of AwaitPost ts tempId \<Rightarrow> distinct (ids ts) | _ \<Rightarrow> True"
      by (simp add: unique_ids_def)
    from f Settle True
    have 3: "case r of Fulfilled d \<Rightarrow> inflight s ! k = AwaitGet \<longrightarrow> distinct (ids d) | Rejected \<Rightarrow> True"
      by (cases r) simp_all
    from unique_ids_settle [OF 1 2 3] Settle True show ?thesis by simp
  qed
qed

lemma unique_ids_run: "unique_ids s \<Longrightarrow> fresh_run s es \<Longrightarrow> unique_ids (run s es)"
  unfolding run_def
  by (induction es arbitrary: s) (simp_all add: unique_ids_step)

lemma fresh_run_take: "fresh_run s es \<Longrightarrow> fresh_run s (take n es)"
proof (induction es arbitrary: s n)
  case Nil
  show ?case by simp
next
  case (Cons e es)
  then show ?case by (cases n) simp_all
qed

lemma create_then_reload:
  assumes "k < length (inflight s)" and "inflight s ! k = AwaitPost ts tempId"
  shows "todos (step s (Settle k (Fulfilled d0))) = todos s"
    and "inflight (step s (Settle k (Fulfilled d0)))
           = take k (inflight s) @ drop (Suc k) (inflight s) @ [AwaitGet]"
    and "todos (step (step s (Settle k (Fulfilled d0))) (Settle (length (inflight s) - 1) (Fulfilled d))) = d"
proof -
  let ?s1 = "step s (Settle k (Fulfilled d0))"
  from assms show 1: "todos ?s1 = todos s"
    by (simp add: handleAddTodo_then_def fetchTodos_def)
  from assms show 2: "inflight ?s1 = take k (inflight s) @ drop (Suc k) (inflight s) @ [AwaitGet]"
    by (simp add: handleAddTodo_then_def fetchTodos_def)
  from assms(1) have l: "length (take k (inflight s) @ drop (Suc k) (inflight s)) = length (inflight s) - 1"
    by simp
  have n: "inflight ?s1 ! (length (inflight s) - 1) = AwaitGet"
    unfolding 2 using l by (metis append_assoc nth_append_length)
  have m: "length (inflight s) - 1 < length (inflight ?s1)"
    unfolding 2 using assms(1) by simp
  from n m show "todos (step ?s1 (Settle (length (inflight s) - 1) (Fulfilled d))) = d"
    by (simp add: fetchTodos_then_def)
qed

text \<open>
  Claim C2, as amended. Take any sequence of events in which every list response has
  pairwise distinct identifiers and in which no create prints a clock reading that is
  already an identifier in the collection. Then after every initial part of the sequence
  the identifiers in the collection are pairwise distinct. And when a create request in
  flight is fulfilled and the list request it starts is fulfilled next with \<open>d\<close>, the
  collection is \<open>d\<close>: the temporary entry is replaced by what the store returned.
\<close>

theorem unique_ids_when_fresh:
  assumes "fresh_run init es"
  shows "(\<forall>n. distinct (ids (todos (run init (take n es)))))
         \<and> (\<forall>k ts tempId d0 d.
               k < length (inflight (run init es)) \<and> inflight (run init es) ! k = AwaitPost ts tempId
               \<longrightarrow> todos (step (step (run init es) (Settle k (Fulfilled d0)))
                               (Settle (length (inflight (run init es)) - 1) (Fulfilled d))) = d)"
proof -
  have "distinct (ids (todos (run init (take n es))))" for n
  proof -
    from assms have "fresh_run init (take n es)" by (rule fresh_run_take)
    with unique_ids_init have "unique_ids (run init (take n es))" by (rule unique_ids_run)
    then show ?thesis by (simp add: unique_ids_def)
  qed
  then show ?thesis
    using create_then_reload(3) by blast
qed


lemmas run_eval = run_def init_def op_defs handleAddTodo_def Let_def trim_def isWhitespace_def
  toString.simps digitChar_def units_def

theorem unique_ids_when_fresh_witness:
  "fresh_run init [Mount, Settle 0 (Fulfilled [ex_a, ex_b]), TitleInput (units ''Buy milk''),
                   Submit 1700000000000 1700000000000]
   \<and> distinct (ids (todos (run init [Mount, Settle 0 (Fulfilled [ex_a, ex_b]),
                                      TitleInput (units ''Buy milk''), Submit 1700000000000 1700000000000])))
   \<and> todos (step (step (run init [Mount, Settle 0 (Fulfilled [ex_a, ex_b]),
                                   TitleInput (units ''Buy milk''), Submit 1700000000000 1700000000000])
                    (Settle 0 (Fulfilled [])))
              (Settle 0 (Fulfilled [ex_a, ex_b, ex_c])))
     = [ex_a, ex_b, ex_c]"
proof -
  let ?es = "[Mount, Settle 0 (Fulfilled [ex_a, ex_b]), TitleInput (units ''Buy milk''),
              Submit 1700000000000 1700000000000]"
  have f: "fresh_run init ?es"
    by (simp add: run_eval ids_def ex_a_def ex_b_def)
  have i: "inflight (run init ?es) = [AwaitPost [ex_a, ex_b] (units ''1700000000000'')]"
    by (simp add: run_eval)
  from unique_ids_when_fresh [OF f] have
    1: "\<forall>n. distinct (ids (todos (run init (take n ?es))))" and
    2: "\<forall>k ts tempId d0 d.
               k < length (inflight (run init ?es)) \<and> inflight (run init ?es) ! k = AwaitPost ts tempId
               \<longrightarrow> todos (step (step (run init ?es) (Settle k (Fulfilled d0)))
                               (Settle (length (inflight (run init ?es)) - 1) (Fulfilled d))) = d"
    by blast+
  from 1 have a: "distinct (ids (todos (run init (take 4 ?es))))" ..
  have b: "todos (step (step (run init ?es) (Settle 0 (Fulfilled [])))
              (Settle (length (inflight (run init ?es)) - 1) (Fulfilled [ex_a, ex_b, ex_c])))
     = [ex_a, ex_b, ex_c]"
    by (rule 2 [rule_format, of 0 "[ex_a, ex_b]" "(units ''1700000000000'')"]) (simp add: i)
  from f a b show ?thesis by (simp add: i)
qed

text \<open>
  Claim C2 as stated fails. Two creates at the same clock reading put two entries with the
  same identifier into the collection. And a temporary entry stays in the collection when
  its create request was fulfilled and the list request that follows is rejected.
\<close>

theorem duplicate_ids_counterexample:
  "\<not> distinct (ids (todos (run init
        [Mount, Settle 0 (Fulfilled []),
         TitleInput (units ''A''), Submit 1700000000000 1700000000000,
         TitleInput (units ''B''), Submit 1700000000000 1700000000000])))
   \<and> todos (run init
        [Mount, Settle 0 (Fulfilled [ex_a]),
         TitleInput (units ''A''), Submit 1700000000000 1700000000000,
         Settle 0 (Fulfilled []), Settle 0 Rejected])
     = [\<lparr>todo_id = JString (units ''1700000000000''), title = JString (units ''A''), description = JString [],
          createdAt = DateObj 1700000000000, sync = JBool False\<rparr>, ex_a]"
  by (simp add: run_eval ids_def)

text \<open>
  Claim C1 says that a failed create removes the temporary entry from the collection as it
  is at the time of the failure and leaves every other task as it is. The \<open>catch\<close> block
  filters the collection that \<open>handleAddTodo\<close> read when it was called. Here a create is
  submitted on the collection of \<open>ex_a\<close> and \<open>ex_b\<close>, then \<open>ex_a\<close> is deleted and the
  delete is fulfilled, which leaves the temporary entry and \<open>ex_b\<close>; then the create is
  rejected. The collection becomes \<open>ex_a\<close> and \<open>ex_b\<close>: the deleted task is back. One
  notification is raised.
\<close>

theorem rollback_uses_stale_collection:
  "todos (run init
        [Mount, Settle 0 (Fulfilled [ex_a, ex_b]),
         TitleInput (units ''X''), DescriptionInput (units ''Y''), Submit 1700000000000 1700000000000,
         DeleteClick (JString (units ''a'')), Settle 1 (Fulfilled [])])
     = [\<lparr>todo_id = JString (units ''1700000000000''), title = JString (units ''X''), description = JString (units ''Y''),
          createdAt = DateObj 1700000000000, sync = JBool False\<rparr>, ex_b]
   \<and> todos (run init
        [Mount, Settle 0 (Fulfilled [ex_a, ex_b]),
         TitleInput (units ''X''), DescriptionInput (units ''Y''), Submit 1700000000000 1700000000000,
         DeleteClick (JString (units ''a'')), Settle 1 (Fulfilled []), Settle 0 Rejected])
     = [ex_a, ex_b]
   \<and> alerts (run init
        [Mount, Settle 0 (Fulfilled [ex_a, ex_b]),
         TitleInput (units ''X''), DescriptionInput (units ''Y''), Submit 1700000000000 1700000000000,
         DeleteClick (JString (units ''a'')), Settle 1 (Fulfilled []), Settle 0 Rejected])
     = [''Failed to save todo.'']"
  by (simp add: run_eval ex_a_def ex_b_def)

text \<open>
  When the create request is rejected before any other event, and the temporary identifier
  is not an identifier of the collection, the collection is restored, one notification is
  raised and the only request issued is the create itself.
\<close>

lemma rollback_without_interleaving:
  assumes "\<exists>c \<in> set (ftitle (formData s)). \<not> isWhitespace c"
    and "JString (toString now) \<notin> set (ids (todos s))"
  shows "todos (step (handleAddTodo now now' s) (Settle (length (inflight s)) Rejected)) = todos s"
    and "alerts (step (handleAddTodo now now' s) (Settle (length (inflight s)) Rejected))
           = alerts s @ [''Failed to save todo.'']"
    and "requests (step (handleAddTodo now now' s) (Settle (length (inflight s)) Rejected))
           = requests s @ [POST_createTodo (formData s)]"
proof -
  from assms(1) have t: "trim (ftitle (formData s)) \<noteq> []"
    by (simp add: trim_Nil_iff)
  from assms(2) have f: "filter (\<lambda>t. todo_id t \<noteq> JString (toString now)) (todos s) = todos s"
    by (force simp: ids_def filter_id_conv)
  from t f show "todos (step (handleAddTodo now now' s) (Settle (length (inflight s)) Rejected)) = todos s"
    by (simp add: handleAddTodo_def Let_def handleAddTodo_catch_def)
  from t show "alerts (step (handleAddTodo now now' s) (Settle (length (inflight s)) Rejected))
           = alerts s @ [''Failed to save todo.'']"
    by (simp add: handleAddTodo_def Let_def handleAddTodo_catch_def)
  from t show "requests (step (handleAddTodo now now' s) (Settle (length (inflight s)) Rejected))
           = requests s @ [POST_createTodo (formData s)]"
    by (simp add: handleAddTodo_def Let_def handleAddTodo_catch_def)
qed

end
